theory Spec2Isabelle
  imports Complex_Main "HOL-Library.Word"
begin

section \<open>The environment of the program\<close>

text \<open>
  The program of \<^verbatim>\<open>src/main.py\<close> writes byte buffers to a data file, times the
  writes, and fills a volume until its free space is used up. Everything it
  observes of the outside (the wall clock, the random generator, an operating
  system call that raises) is a field of an environment \<open>env\<close>, read by position;
  everything it changes is a field of the state \<open>world\<close>.
\<close>

type_synonym bytearray = "int list"

datatype exn = KeyError | ValueError | OSError | KeyboardInterrupt | ZeroDivisionError | MemoryError

datatype event =
    ThreadStart
  | Write string nat bytearray
  | EventSet

record perf_row =
  row_kb :: int
  row_mb :: real
  row_rate :: real
  row_elapsed :: real
  row_iteration :: int

record env =
  time_at :: "nat \<Rightarrow> real"
  fault_at :: "nat \<Rightarrow> exn option"
  random_at :: "nat \<Rightarrow> 8 word"

record world =
  dirs :: "string set"
  files :: "string \<Rightarrow> bytearray option"
  csv :: "string \<Rightarrow> perf_row list option"
  free :: nat
  clock_reads :: nat
  os_calls :: nat
  draws :: nat
  event_flag :: bool
  trace :: "event list"

text \<open>
  \<open>time_at e k\<close> is what the \<open>k\<close>-th call of \<^verbatim>\<open>time.time()\<close> returns (seconds, as a
  real number), \<open>random_at e k\<close> the \<open>k\<close>-th draw of \<^verbatim>\<open>random.randint(0, 255)\<close>, and
  \<open>fault_at e k\<close> the exception the \<open>k\<close>-th operating system call raises, if any:
  a full disk or a missing volume (\<open>OSError\<close>), Ctrl-C (\<open>KeyboardInterrupt\<close>).
  The volume has \<open>free w\<close> bytes left. \<open>trace w\<close> is the history of the run:
  the start of the monitor thread, each attempted write with the free space at
  that moment and the bytes handed over, and the setting of the thread's event.
\<close>

definition time_time :: "env \<Rightarrow> world \<Rightarrow> real \<times> world" where
  "time_time e w = (time_at e (clock_reads w), w\<lparr>clock_reads := Suc (clock_reads w)\<rparr>)"

definition os_call :: "env \<Rightarrow> world \<Rightarrow> exn option \<times> world" where
  "os_call e w = (fault_at e (os_calls w), w\<lparr>os_calls := Suc (os_calls w)\<rparr>)"

definition randint_0_255 :: "env \<Rightarrow> nat \<Rightarrow> int" where
  "randint_0_255 e k = uint (random_at e k)"

section \<open>Constants of the module\<close>

definition TEMP_DIRPATH :: string where "TEMP_DIRPATH = ''/tmp''"
definition DATA_FILEPATH :: string where "DATA_FILEPATH = ''/tmp/data.dat''"
definition PERF_FILEPATH :: string where "PERF_FILEPATH = ''/tmp/perf.csv''"
definition OPERATIONS :: "string list" where
  "OPERATIONS = [''perf'', ''fill'', ''perf+fill'', ''loop'']"
definition LOG_LEVELS :: "string list" where
  "LOG_LEVELS = [''CRITICAL'', ''FATAL'', ''ERROR'', ''WARN'', ''WARNING'', ''INFO'', ''DEBUG'', ''NOTSET'']"
definition LOG_LEVEL :: string where "LOG_LEVEL = ''INFO''"
definition FILL :: int where "FILL = - 1"
definition DURATION :: real where "DURATION = 5"
definition ITERATIONS :: int where "ITERATIONS = 10"
definition SIZE :: int where "SIZE = 1"

section \<open>Buffers\<close>

text \<open>
  \<^verbatim>\<open>bytearray(iterable)\<close> takes integers and raises \<open>ValueError\<close> unless each is in
  \<open>range(0, 256)\<close>.
\<close>

definition is_byte :: "int \<Rightarrow> bool" where
  "is_byte x = (0 \<le> x \<and> x < 256)"

definition bytearray_of :: "int list \<Rightarrow> exn + bytearray" where
  "bytearray_of xs = (if list_all is_byte xs then Inr xs else Inl ValueError)"

text \<open>\<^verbatim>\<open>range(count)\<close> is empty for \<open>count \<le> 0\<close>: it has \<open>nat count\<close> elements.\<close>

definition create_bytearray :: "env \<Rightarrow> int \<Rightarrow> int \<Rightarrow> world \<Rightarrow> (exn + bytearray) \<times> world" where
  "create_bytearray e count fill w =
     (if fill = FILL then
        (bytearray_of (map (\<lambda>i. randint_0_255 e (draws w + i)) [0..<nat count]),
         w\<lparr>draws := draws w + nat count\<rparr>)
      else (bytearray_of (replicate (nat count) fill), w))"

definition create_bytearray_killobytes :: "env \<Rightarrow> int \<Rightarrow> int \<Rightarrow> world \<Rightarrow> (exn + bytearray) \<times> world" where
  "create_bytearray_killobytes e count fill w =
     (case create_bytearray e 1024 fill w of
        (Inl x, w1) \<Rightarrow> (Inl x, w1)
      | (Inr killobyte, w1) \<Rightarrow>
          (Inr (fold (\<lambda>_ killobytes_array. killobytes_array @ killobyte) [0..<nat count] []), w1))"

section \<open>Validation of the arguments\<close>

record kwargs =
  kw_operation :: string
  kw_log_level :: string
  kw_fill :: int
  kw_size :: int
  kw_duration :: real
  kw_iterations :: int
  kw_data_filepath :: string
  kw_perf_filepath :: string

text \<open>The defaults of the keyword arguments of \<^verbatim>\<open>validate_kwargs\<close>.\<close>

definition default_kwargs :: kwargs where
  "default_kwargs =
     \<lparr>kw_operation = OPERATIONS ! 0, kw_log_level = ''INFO'', kw_fill = FILL, kw_size = SIZE,
      kw_duration = DURATION, kw_iterations = ITERATIONS,
      kw_data_filepath = DATA_FILEPATH, kw_perf_filepath = PERF_FILEPATH\<rparr>"

text \<open>
  \<^verbatim>\<open>os.path.dirname\<close> of a POSIX path: everything up to the last slash, without
  trailing slashes unless it consists of slashes only.
\<close>

definition dirname :: "string \<Rightarrow> string" where
  "dirname p =
     (let head = rev (dropWhile (\<lambda>c. c \<noteq> CHR ''/'') (rev p)) in
      if head \<noteq> [] \<and> \<not> list_all (\<lambda>c. c = CHR ''/'') head
      then rev (dropWhile (\<lambda>c. c = CHR ''/'') (rev head))
      else head)"

definition isdir :: "world \<Rightarrow> string \<Rightarrow> bool" where
  "isdir w d = (d \<in> dirs w)"

text \<open>
  \<^verbatim>\<open>os.makedirs\<close> is an operating system call: it raises what the environment
  says, and \<open>OSError\<close> on the empty path. Only the leaf directory is recorded,
  the one \<^verbatim>\<open>os.path.isdir\<close> is asked about.
\<close>

definition makedirs :: "env \<Rightarrow> string \<Rightarrow> world \<Rightarrow> (exn + unit) \<times> world" where
  "makedirs e d w =
     (case os_call e w of
        (Some x, w1) \<Rightarrow> (Inl x, w1)
      | (None, w1) \<Rightarrow>
          if d = [] then (Inl OSError, w1) else (Inr (), w1\<lparr>dirs := insert d (dirs w1)\<rparr>))"

fun ensure_dirs :: "env \<Rightarrow> string list \<Rightarrow> world \<Rightarrow> (exn + unit) \<times> world" where
  "ensure_dirs e [] w = (Inr (), w)"
| "ensure_dirs e (filepath # rest) w =
     (if \<not> isdir w (dirname filepath) then
        (case makedirs e (dirname filepath) w of
           (Inl x, w1) \<Rightarrow> (Inl x, w1)
         | (Inr _, w1) \<Rightarrow> ensure_dirs e rest w1)
      else ensure_dirs e rest w)"

definition validate_kwargs :: "env \<Rightarrow> kwargs \<Rightarrow> world \<Rightarrow> (exn + unit) \<times> world" where
  "validate_kwargs e k w =
     (if kw_operation k \<notin> set OPERATIONS then (Inl KeyError, w)
      else if kw_log_level k \<notin> set LOG_LEVELS then (Inl KeyError, w)
      else if kw_size k < 1 then (Inl ValueError, w)
      else if kw_fill k \<noteq> - 1 \<and> (kw_fill k < 0 \<and> 255 < kw_fill k) then (Inl ValueError, w)
      else if kw_duration k < 0 then (Inl ValueError, w)
      else if kw_iterations k < 0 then (Inl ValueError, w)
      else ensure_dirs e [kw_data_filepath k, kw_perf_filepath k] w)"

section \<open>Files and the volume\<close>

text \<open>
  A file is its content. Opening in mode \<^verbatim>\<open>'wb'\<close> truncates and gives the old
  content's bytes back to the volume; opening in mode \<^verbatim>\<open>'ab'\<close> keeps the content.
  A write that fits is appended and paid for from the free space; one that does
  not fit raises \<open>OSError\<close>. Every write is recorded in the trace when it is
  attempted. Buffering and the closing of the file are not modelled.
\<close>

definition content :: "world \<Rightarrow> string \<Rightarrow> bytearray" where
  "content w p = (case files w p of None \<Rightarrow> [] | Some c \<Rightarrow> c)"

definition fopen_wb :: "env \<Rightarrow> string \<Rightarrow> world \<Rightarrow> (exn + unit) \<times> world" where
  "fopen_wb e p w =
     (case os_call e w of
        (Some x, w1) \<Rightarrow> (Inl x, w1)
      | (None, w1) \<Rightarrow>
          (Inr (), w1\<lparr>files := (files w1)(p \<mapsto> []), free := free w1 + length (content w1 p)\<rparr>))"

definition fopen_ab :: "env \<Rightarrow> string \<Rightarrow> world \<Rightarrow> (exn + unit) \<times> world" where
  "fopen_ab e p w =
     (case os_call e w of
        (Some x, w1) \<Rightarrow> (Inl x, w1)
      | (None, w1) \<Rightarrow> (Inr (), w1\<lparr>files := (files w1)(p \<mapsto> content w1 p)\<rparr>))"

definition fwrite :: "env \<Rightarrow> string \<Rightarrow> bytearray \<Rightarrow> world \<Rightarrow> (exn + unit) \<times> world" where
  "fwrite e p data w =
     (case os_call e (w\<lparr>trace := trace w @ [Write p (free w) data]\<rparr>) of
        (Some x, w1) \<Rightarrow> (Inl x, w1)
      | (None, w1) \<Rightarrow>
          if length data \<le> free w1 then
            (Inr (), w1\<lparr>files := (files w1)(p \<mapsto> content w1 p @ data),
                         free := free w1 - length data\<rparr>)
          else (Inl OSError, w1))"

definition getsize :: "env \<Rightarrow> string \<Rightarrow> world \<Rightarrow> (exn + nat) \<times> world" where
  "getsize e p w =
     (case os_call e w of
        (Some x, w1) \<Rightarrow> (Inl x, w1)
      | (None, w1) \<Rightarrow>
          (case files w1 p of None \<Rightarrow> (Inl OSError, w1) | Some c \<Rightarrow> (Inr (length c), w1)))"

text \<open>\<^verbatim>\<open>psutil.disk_usage(drive).free\<close>; the model has one volume.\<close>

definition disk_usage_free :: "env \<Rightarrow> world \<Rightarrow> (exn + nat) \<times> world" where
  "disk_usage_free e w =
     (case os_call e w of
        (Some x, w1) \<Rightarrow> (Inl x, w1)
      | (None, w1) \<Rightarrow> (Inr (free w1), w1))"

section \<open>Writing continuously\<close>

text \<open>
  The loop \<^verbatim>\<open>while time.time() - start < duration or iteration < iterations\<close>.
  Each test reads the clock once; the loop need not end (a clock that stands
  still), so the result is an option and \<open>None\<close> is the run that never returns.
\<close>

partial_function (option) write_loop ::
  "env \<Rightarrow> bytearray \<Rightarrow> string \<Rightarrow> real \<Rightarrow> real \<Rightarrow> int \<Rightarrow> int \<Rightarrow> world \<Rightarrow> ((exn + int) \<times> world) option"
where
  "write_loop e byte_array p start duration iterations iteration w =
     (case time_time e w of
        (t, w1) \<Rightarrow>
          if t - start < duration \<or> iteration < iterations then
            (case fwrite e p byte_array w1 of
               (Inl x, w2) \<Rightarrow> Some (Inl x, w2)
             | (Inr _, w2) \<Rightarrow> write_loop e byte_array p start duration iterations (iteration + 1) w2)
          else Some (Inr iteration, w1))"

text \<open>
  The result is \<^verbatim>\<open>(bytes_written, elapsed, iteration)\<close>. The throughput is computed
  for the log before the return: \<^verbatim>\<open>bytes_written / 1024**2 / elapsed\<close> raises
  \<open>ZeroDivisionError\<close> when \<open>elapsed\<close> is zero.
\<close>

definition write_byte_array_continuously ::
  "env \<Rightarrow> bytearray \<Rightarrow> string \<Rightarrow> real \<Rightarrow> int \<Rightarrow> world \<Rightarrow> ((exn + int \<times> real \<times> int) \<times> world) option"
where
  "write_byte_array_continuously e byte_array data_filepath duration iterations w =
     (case validate_kwargs e
             (default_kwargs\<lparr>kw_data_filepath := data_filepath, kw_duration := duration,
                              kw_iterations := iterations\<rparr>) w of
        (Inl x, w1) \<Rightarrow> Some (Inl x, w1)
      | (Inr _, w1) \<Rightarrow>
     (case fopen_wb e data_filepath w1 of
        (Inl x, w2) \<Rightarrow> Some (Inl x, w2)
      | (Inr _, w2) \<Rightarrow>
     (case getsize e data_filepath w2 of
        (Inl x, w3) \<Rightarrow> Some (Inl x, w3)
      | (Inr original_size, w3) \<Rightarrow>
     (case fopen_wb e data_filepath w3 of
        (Inl x, w4) \<Rightarrow> Some (Inl x, w4)
      | (Inr _, w4) \<Rightarrow>
     (case time_time e w4 of
        (start, w5) \<Rightarrow>
     (case write_loop e byte_array data_filepath start duration iterations 0 w5 of
        None \<Rightarrow> None
      | Some (Inl x, w6) \<Rightarrow> Some (Inl x, w6)
      | Some (Inr iteration, w6) \<Rightarrow>
     (case time_time e w6 of
        (end_time, w7) \<Rightarrow>
     (case getsize e data_filepath w7 of
        (Inl x, w8) \<Rightarrow> Some (Inl x, w8)
      | (Inr size_after, w8) \<Rightarrow>
          (let bytes_written = int size_after - int original_size;
               elapsed = end_time - start
           in if elapsed = 0 then Some (Inl ZeroDivisionError, w8)
              else Some (Inr (bytes_written, elapsed, iteration), w8))))))))))"

section \<open>Filling the volume\<close>

definition one_mb_bytes :: nat where
  "one_mb_bytes = 1024 ^ 2"

text \<open>The slice \<^verbatim>\<open>xs[a:b]\<close> for indices that are not negative.\<close>

definition slice :: "nat \<Rightarrow> nat \<Rightarrow> 'a list \<Rightarrow> 'a list" where
  "slice a b xs = drop a (take b xs)"

text \<open>
  The first loop, \<^verbatim>\<open>while psutil.disk_usage(drive).free > byte_array_bytes\<close>. With an
  empty buffer and free space left it never ends.
\<close>

partial_function (option) coarse_loop ::
  "env \<Rightarrow> bytearray \<Rightarrow> string \<Rightarrow> world \<Rightarrow> ((exn + unit) \<times> world) option"
where
  "coarse_loop e byte_array p w =
     (case disk_usage_free e w of
        (Inl x, w1) \<Rightarrow> Some (Inl x, w1)
      | (Inr f, w1) \<Rightarrow>
          if f > length byte_array then
            (case fwrite e p byte_array w1 of
               (Inl x, w2) \<Rightarrow> Some (Inl x, w2)
             | (Inr _, w2) \<Rightarrow> coarse_loop e byte_array p w2)
          else Some (Inr (), w1))"

definition coarse_write ::
  "env \<Rightarrow> bytearray \<Rightarrow> string \<Rightarrow> world \<Rightarrow> ((exn + unit) \<times> world) option"
where
  "coarse_write e byte_array p w =
     (case fopen_ab e p w of
        (Inl x, w1) \<Rightarrow> Some (Inl x, w1)
      | (Inr _, w1) \<Rightarrow> coarse_loop e byte_array p w1)"

text \<open>The second loop, over \<^verbatim>\<open>range(byte_array_bytes // one_mb_bytes)\<close>, with its \<^verbatim>\<open>break\<close>.\<close>

fun fine_loop :: "env \<Rightarrow> bytearray \<Rightarrow> string \<Rightarrow> nat list \<Rightarrow> world \<Rightarrow> (exn + unit) \<times> world" where
  "fine_loop e byte_array p [] w = (Inr (), w)"
| "fine_loop e byte_array p (i # rest) w =
     (case disk_usage_free e w of
        (Inl x, w1) \<Rightarrow> (Inl x, w1)
      | (Inr f, w1) \<Rightarrow>
          if f > one_mb_bytes then
            (case fwrite e p (slice (i * one_mb_bytes) ((i + 1) * one_mb_bytes) byte_array) w1 of
               (Inl x, w2) \<Rightarrow> (Inl x, w2)
             | (Inr _, w2) \<Rightarrow> fine_loop e byte_array p rest w2)
          else (Inr (), w1))"

definition fine_write :: "env \<Rightarrow> bytearray \<Rightarrow> string \<Rightarrow> world \<Rightarrow> (exn + unit) \<times> world" where
  "fine_write e byte_array p w =
     (case fopen_ab e p w of
        (Inl x, w1) \<Rightarrow> (Inl x, w1)
      | (Inr _, w1) \<Rightarrow> fine_loop e byte_array p [0..<length byte_array div one_mb_bytes] w1)"

text \<open>The body of the \<^verbatim>\<open>try\<close> statement: the two phases, one after the other.\<close>

definition fill_phases ::
  "env \<Rightarrow> bytearray \<Rightarrow> string \<Rightarrow> world \<Rightarrow> ((exn + unit) \<times> world) option"
where
  "fill_phases e byte_array p w =
     (case coarse_write e byte_array p w of
        None \<Rightarrow> None
      | Some (Inl x, w1) \<Rightarrow> Some (Inl x, w1)
      | Some (Inr _, w1) \<Rightarrow> Some (fine_write e byte_array p w1))"





section \<open>The throughput sweep\<close>






section \<open>Notions used in the statements\<close>

text \<open>
  The clock readings of one call of \<^verbatim>\<open>write_byte_array_continuously\<close> entered in
  state \<open>w\<close>: the reading \<open>start\<close>, the reading of the \<open>k\<close>-th test of the loop
  condition (counted from 0), and the reading \<open>end\<close> after a loop that made \<open>k\<close>
  iterations. \<open>clock_never_set_back\<close> says that a later reading is never smaller
  than an earlier one.
\<close>

definition start_reading :: "env \<Rightarrow> world \<Rightarrow> real" where
  "start_reading e w = time_at e (clock_reads w)"

definition test_reading :: "env \<Rightarrow> world \<Rightarrow> nat \<Rightarrow> real" where
  "test_reading e w k = time_at e (clock_reads w + 1 + k)"

definition end_reading :: "env \<Rightarrow> world \<Rightarrow> nat \<Rightarrow> real" where
  "end_reading e w k = time_at e (clock_reads w + 2 + k)"

definition clock_never_set_back :: "env \<Rightarrow> bool" where
  "clock_never_set_back e = (\<forall>i j. i \<le> j \<longrightarrow> time_at e i \<le> time_at e j)"

text \<open>
  What a normal exit of the loop, entered in state \<open>w\<close> with the counter at
  \<open>iteration\<close> and left in state \<open>w'\<close> with the counter at \<open>it\<close>, says about the
  readings it tested and the writes it made; without an iteration the files are
  as they were.
\<close>

definition loop_exit :: "env \<Rightarrow> real \<Rightarrow> real \<Rightarrow> int \<Rightarrow> int \<Rightarrow> world \<Rightarrow> int \<Rightarrow> world \<Rightarrow> bool" where
  "loop_exit e start duration iterations iteration w it w' =
     (iteration \<le> it
      \<and> clock_reads w' = clock_reads w + nat (it - iteration) + 1
      \<and> length (trace w') = length (trace w) + nat (it - iteration)
      \<and> duration \<le> time_at e (clock_reads w + nat (it - iteration)) - start
      \<and> iterations \<le> it
      \<and> (\<forall>k < nat (it - iteration).
            time_at e (clock_reads w + k) - start < duration \<or> iteration + int k < iterations)
      \<and> (it = iteration \<longrightarrow> files w' = files w))"


definition raised_by_env :: "env \<Rightarrow> exn \<Rightarrow> bool" where
  "raised_by_env e x = (x = OSError \<or> (\<exists>k. fault_at e k = Some x))"

definition slice_write :: "string \<Rightarrow> bytearray \<Rightarrow> nat \<Rightarrow> nat \<Rightarrow> event" where
  "slice_write p byte_array i f =
     Write p f (slice (i * one_mb_bytes) ((i + 1) * one_mb_bytes) byte_array)"


text \<open>
  What the exit of the first loop, of the second loop and of both phases says:
  which writes were attempted and with how much free space, that the event is
  untouched, that a normal exit of the first loop leaves no more free space than
  the buffer is long, and where an exception came from.
\<close>

definition coarse_exit :: "env \<Rightarrow> bytearray \<Rightarrow> string \<Rightarrow> world \<Rightarrow> (exn + unit) \<Rightarrow> world \<Rightarrow> bool" where
  "coarse_exit e byte_array p w r w' =
     ((\<exists>fs. trace w' = trace w @ map (\<lambda>f. Write p f byte_array) fs
            \<and> list_all (\<lambda>f. length byte_array < f) fs)
      \<and> event_flag w' = event_flag w
      \<and> (r = Inr () \<longrightarrow> free w' \<le> length byte_array)
      \<and> (\<forall>x. r = Inl x \<longrightarrow> raised_by_env e x))"

definition fine_exit :: "env \<Rightarrow> bytearray \<Rightarrow> string \<Rightarrow> nat list \<Rightarrow> world \<Rightarrow> (exn + unit) \<Rightarrow> world \<Rightarrow> bool" where
  "fine_exit e byte_array p idxs w r w' =
     ((\<exists>fs. length fs \<le> length idxs
            \<and> trace w' = trace w @ map2 (slice_write p byte_array) idxs fs
            \<and> list_all (\<lambda>f. one_mb_bytes < f) fs)
      \<and> event_flag w' = event_flag w
      \<and> (\<forall>x. r = Inl x \<longrightarrow> raised_by_env e x))"

definition phases_exit :: "env \<Rightarrow> bytearray \<Rightarrow> string \<Rightarrow> world \<Rightarrow> (exn + unit) \<Rightarrow> world \<Rightarrow> bool" where
  "phases_exit e byte_array p w r w' =
     ((\<exists>cs fs. length fs \<le> length byte_array div one_mb_bytes
            \<and> trace w' = trace w @ map (\<lambda>f. Write p f byte_array) cs
                  @ map (\<lambda>i. slice_write p byte_array i (fs ! i)) [0..<length fs]
            \<and> list_all (\<lambda>f. length byte_array < f) cs
            \<and> list_all (\<lambda>f. one_mb_bytes < f) fs)
      \<and> event_flag w' = event_flag w
      \<and> (\<forall>x. r = Inl x \<longrightarrow> raised_by_env e x))"


section \<open>Environments and states for concrete runs\<close>

text \<open>
  \<open>calm_env\<close>: no operating system call raises, the clock advances by five
  seconds from one reading to the next, every random draw is 0.
  \<open>stalled_env\<close>: the same with a clock that returns the same reading each time.
  \<open>fresh_world n\<close>: the directory \<^verbatim>\<open>/tmp\<close> exists, there is no file, and \<open>n\<close> bytes
  are free.
\<close>

definition calm_env :: env where
  "calm_env = \<lparr>time_at = (\<lambda>k. 5 * real k), fault_at = (\<lambda>k. None), random_at = (\<lambda>k. 0)\<rparr>"

definition stalled_env :: env where
  "stalled_env = \<lparr>time_at = (\<lambda>k. 1000), fault_at = (\<lambda>k. None), random_at = (\<lambda>k. 0)\<rparr>"

definition fresh_world :: "nat \<Rightarrow> world" where
  "fresh_world n =
     \<lparr>dirs = {''/tmp''}, files = Map.empty, csv = Map.empty, free = n, clock_reads = 0,
      os_calls = 0, draws = 0, event_flag = False, trace = []\<rparr>"


section \<open>Properties of the buffers\<close>

lemma is_byte_randint: "is_byte (randint_0_255 e k)"
proof -
  have "uint (random_at e k) < 2 ^ LENGTH(8)"
    by (rule uint_bounded)
  then show ?thesis
    by (simp add: is_byte_def randint_0_255_def)
qed

lemma bytearray_of_random:
  "bytearray_of (map (\<lambda>i. randint_0_255 e (d + i)) [0..<n]) = Inr (map (\<lambda>i. randint_0_255 e (d + i)) [0..<n])"
  by (simp add: bytearray_of_def list_all_iff is_byte_randint)

lemma bytearray_of_replicate:
  "bytearray_of (replicate n x) = (if n = 0 \<or> is_byte x then Inr (replicate n x) else Inl ValueError)"
  by (auto simp: bytearray_of_def list_all_iff)

lemma fold_extend:
  "fold (\<lambda>_ acc. acc @ block) xs acc0 = acc0 @ concat (replicate (length xs) block)"
  by (induction xs arbitrary: acc0) (simp_all add: replicate_app_Cons_same)

lemma length_concat_replicate: "length (concat (replicate n block)) = n * length block"
  by (induction n) simp_all

lemma set_concat_replicate: "set (concat (replicate n block)) \<subseteq> set block"
  by (induction n) auto

lemma create_bytearray_killobytes_random:
  "create_bytearray_killobytes e count (- 1) w =
     (Inr (concat (replicate (nat count) (map (\<lambda>i. randint_0_255 e (draws w + i)) [0..<1024]))),
      w\<lparr>draws := draws w + 1024\<rparr>)"
  by (simp add: create_bytearray_killobytes_def create_bytearray_def bytearray_of_random
      fold_extend FILL_def)

lemma create_bytearray_killobytes_constant:
  assumes "fill \<noteq> - 1" and "0 \<le> fill" and "fill \<le> 255"
  shows "create_bytearray_killobytes e count fill w =
           (Inr (concat (replicate (nat count) (replicate 1024 fill))), w)"
  using assms
  by (simp add: create_bytearray_killobytes_def create_bytearray_def bytearray_of_replicate
      fold_extend FILL_def is_byte_def)

lemma create_bytearray_killobytes_invalid:
  assumes "fill \<noteq> - 1" and "fill < 0 \<or> 255 < fill"
  shows "create_bytearray_killobytes e count fill w = (Inl ValueError, w)"
  using assms
  by (auto simp: create_bytearray_killobytes_def create_bytearray_def bytearray_of_replicate
      FILL_def is_byte_def)

text \<open>
  Claim C4, as far as the code goes: \<^verbatim>\<open>create_bytearray_killobytes(count, fill)\<close>
  raises \<open>ValueError\<close> whenever \<open>fill\<close> is neither \<open>-1\<close> nor in \<open>[0, 255]\<close>, whatever the
  count; a negative count with a valid fill raises nothing and gives the empty
  buffer, since \<^verbatim>\<open>range(count)\<close> is empty.
\<close>

theorem create_buffer_rejects_bad_fill:
  "(fill \<noteq> - 1 \<and> (fill < 0 \<or> 255 < fill) \<longrightarrow>
      create_bytearray_killobytes e count fill w = (Inl ValueError, w))
   \<and> (count < 0 \<and> (fill = - 1 \<or> (0 \<le> fill \<and> fill \<le> 255)) \<longrightarrow>
      fst (create_bytearray_killobytes e count fill w) = Inr [])"
proof (intro conjI impI)
  assume "fill \<noteq> - 1 \<and> (fill < 0 \<or> 255 < fill)"
  then show "create_bytearray_killobytes e count fill w = (Inl ValueError, w)"
    by (simp add: create_bytearray_killobytes_invalid)
next
  assume a: "count < 0 \<and> (fill = - 1 \<or> (0 \<le> fill \<and> fill \<le> 255))"
  show "fst (create_bytearray_killobytes e count fill w) = Inr []"
  proof (cases "fill = - 1")
    case True
    with a show ?thesis
      by (simp add: create_bytearray_killobytes_random)
  next
    case False
    with a show ?thesis
      by (simp add: create_bytearray_killobytes_constant)
  qed
qed

theorem create_buffer_rejects_bad_fill_witness:
  "create_bytearray_killobytes calm_env 3 300 (fresh_world 0) = (Inl ValueError, fresh_world 0)
   \<and> fst (create_bytearray_killobytes calm_env (- 2) 7 (fresh_world 0)) = Inr []"
  using create_buffer_rejects_bad_fill [where fill = 300 and count = 3 and e = calm_env and w = "fresh_world 0"]
        create_buffer_rejects_bad_fill [where fill = 7 and count = "- 2" and e = calm_env and w = "fresh_world 0"]
  by simp

text \<open>
  Claim C4 as it is stated fails for a negative count: with \<open>count = -1\<close> and the
  valid fill \<open>0\<close> the call returns the empty buffer.
\<close>

theorem create_buffer_negative_count_counterexample:
  "create_bytearray_killobytes calm_env (- 1) 0 (fresh_world 0) = (Inr [], fresh_world 0)"
  by (simp add: create_bytearray_killobytes_constant)

text \<open>
  Claim C5: for every \<open>count \<ge> 0\<close> and every valid fill (\<open>-1\<close> or a value in
  \<open>[0, 255]\<close>), \<^verbatim>\<open>create_bytearray_killobytes(count, fill)\<close> returns a buffer of exactly
  \<open>count * 1024\<close> bytes, and when the fill is a constant every byte equals it.
\<close>

theorem create_buffer_length_and_fill:
  assumes "0 \<le> count" and "fill = - 1 \<or> (0 \<le> fill \<and> fill \<le> 255)"
  shows "\<exists>buf w'. create_bytearray_killobytes e count fill w = (Inr buf, w')
           \<and> int (length buf) = count * 1024
           \<and> (fill \<noteq> - 1 \<longrightarrow> (\<forall>b \<in> set buf. b = fill))"
proof (cases "fill = - 1")
  case True
  with assms(1) show ?thesis
    by (simp add: create_bytearray_killobytes_random length_concat_replicate)
next
  case False
  let ?buf = "concat (replicate (nat count) (replicate 1024 fill))"
  have "create_bytearray_killobytes e count fill w = (Inr ?buf, w)"
    using False assms(2) by (simp add: create_bytearray_killobytes_constant)
  moreover have "int (length ?buf) = count * 1024"
    using assms(1) by (simp add: length_concat_replicate)
  moreover have "\<forall>b \<in> set ?buf. b = fill"
    using set_concat_replicate [of "nat count" "replicate 1024 fill"] by auto
  ultimately show ?thesis
    by blast
qed

theorem create_buffer_length_and_fill_witness:
  "\<exists>buf w'. create_bytearray_killobytes calm_env 2 7 (fresh_world 0) = (Inr buf, w')
      \<and> int (length buf) = 2048 \<and> (\<forall>b \<in> set buf. b = 7)"
  using create_buffer_length_and_fill [where count = 2 and fill = 7 and e = calm_env and w = "fresh_world 0"]
  by simp

section \<open>Properties of the validation\<close>

lemma dirname_DATA_FILEPATH: "dirname DATA_FILEPATH = ''/tmp''"
  by (simp add: dirname_def DATA_FILEPATH_def)

lemma dirname_PERF_FILEPATH: "dirname PERF_FILEPATH = ''/tmp''"
  by (simp add: dirname_def PERF_FILEPATH_def)

lemma validate_kwargs_rejects:
  assumes "kw_operation k \<notin> set OPERATIONS \<or> kw_size k < 1 \<or> kw_duration k < 0 \<or> kw_iterations k < 0"
  shows "\<exists>x. validate_kwargs e k w = (Inl x, w)"
  using assms by (auto simp: validate_kwargs_def)

text \<open>
  Claim C2 at \<open>fill = 300\<close>: the test \<^verbatim>\<open>fill < 0 and 255 < fill\<close> holds for no
  integer, so the validation accepts the value and returns without an error
  (here the directory \<^verbatim>\<open>/tmp\<close> of both default paths exists already).
\<close>

theorem validate_kwargs_accepts_fill_300:
  "validate_kwargs calm_env (default_kwargs\<lparr>kw_fill := 300\<rparr>) (fresh_world 0) = (Inr (), fresh_world 0)"
  by (simp add: validate_kwargs_def default_kwargs_def OPERATIONS_def LOG_LEVELS_def SIZE_def
      DURATION_def ITERATIONS_def dirname_DATA_FILEPATH dirname_PERF_FILEPATH isdir_def fresh_world_def)

section \<open>What the operations leave unchanged\<close>

lemma os_call_frame:
  "os_call e w = (r, w') \<Longrightarrow> w' = w\<lparr>os_calls := Suc (os_calls w)\<rparr> \<and> r = fault_at e (os_calls w)"
  by (auto simp: os_call_def)

lemma makedirs_frame:
  "makedirs e d w = (r, w') \<Longrightarrow>
     clock_reads w' = clock_reads w \<and> trace w' = trace w \<and> event_flag w' = event_flag w
     \<and> free w' = free w \<and> files w' = files w"
  by (auto simp: makedirs_def os_call_def split: option.splits if_splits)

lemma ensure_dirs_frame:
  "ensure_dirs e ps w = (r, w') \<Longrightarrow>
     clock_reads w' = clock_reads w \<and> trace w' = trace w \<and> event_flag w' = event_flag w
     \<and> free w' = free w \<and> files w' = files w"
proof (induction ps arbitrary: w)
  case Nil
  then show ?case by simp
next
  case (Cons a ps)
  show ?case
  proof (cases "isdir w (dirname a)")
    case True
    with Cons show ?thesis by simp
  next
    case False
    obtain r1 w1 where m: "makedirs e (dirname a) w = (r1, w1)"
      by (cases "makedirs e (dirname a) w")
    note f = makedirs_frame [OF m]
    show ?thesis
    proof (cases r1)
      case (Inl x)
      with Cons.prems False m f show ?thesis by simp
    next
      case (Inr u)
      with Cons.prems False m have "ensure_dirs e ps w1 = (r, w')" by simp
      from Cons.IH [OF this] f show ?thesis by simp
    qed
  qed
qed

lemma validate_kwargs_frame:
  "validate_kwargs e k w = (r, w') \<Longrightarrow>
     clock_reads w' = clock_reads w \<and> trace w' = trace w \<and> event_flag w' = event_flag w
     \<and> free w' = free w \<and> files w' = files w"
  by (auto simp: validate_kwargs_def simp del: ensure_dirs.simps split: if_splits dest: ensure_dirs_frame)

lemma validate_kwargs_ok:
  "validate_kwargs e k w = (Inr u, w') \<Longrightarrow> 0 \<le> kw_duration k \<and> 0 \<le> kw_iterations k \<and> 1 \<le> kw_size k"
  by (auto simp: validate_kwargs_def split: if_splits)

lemma fopen_wb_frame:
  "fopen_wb e p w = (r, w') \<Longrightarrow>
     clock_reads w' = clock_reads w \<and> trace w' = trace w \<and> event_flag w' = event_flag w"
  by (auto simp: fopen_wb_def os_call_def split: option.splits)

lemma fopen_ab_frame:
  "fopen_ab e p w = (r, w') \<Longrightarrow>
     clock_reads w' = clock_reads w \<and> trace w' = trace w \<and> event_flag w' = event_flag w
     \<and> free w' = free w"
  by (auto simp: fopen_ab_def os_call_def split: option.splits)

lemma getsize_frame:
  "getsize e p w = (r, w') \<Longrightarrow>
     clock_reads w' = clock_reads w \<and> trace w' = trace w \<and> event_flag w' = event_flag w
     \<and> free w' = free w \<and> files w' = files w"
  by (auto simp: getsize_def os_call_def split: option.splits)

lemma disk_usage_free_frame:
  "disk_usage_free e w = (r, w') \<Longrightarrow>
     clock_reads w' = clock_reads w \<and> trace w' = trace w \<and> event_flag w' = event_flag w
     \<and> free w' = free w \<and> files w' = files w"
  by (auto simp: disk_usage_free_def os_call_def split: option.splits)

lemma disk_usage_free_value:
  "disk_usage_free e w = (Inr f, w') \<Longrightarrow> f = free w"
  by (auto simp: disk_usage_free_def os_call_def split: option.splits)

lemma fwrite_frame:
  "fwrite e p d w = (r, w') \<Longrightarrow>
     clock_reads w' = clock_reads w \<and> trace w' = trace w @ [Write p (free w) d]
     \<and> event_flag w' = event_flag w"
  by (auto simp: fwrite_def os_call_def split: option.splits if_splits)


lemma time_time_frame:
  "time_time e w = (t, w') \<Longrightarrow>
     t = time_at e (clock_reads w) \<and> clock_reads w' = Suc (clock_reads w) \<and> trace w' = trace w
     \<and> event_flag w' = event_flag w \<and> free w' = free w \<and> files w' = files w"
  by (auto simp: time_time_def)

section \<open>Properties of the continuous writer\<close>

lemma write_loop_exit:
  assumes "write_loop e byte_array p start duration iterations iteration w = Some (Inr it, w')"
  shows "loop_exit e start duration iterations iteration w it w'"
proof -
  have "\<forall>it w'. y = (Inr it, w') \<longrightarrow> loop_exit e start duration iterations iteration w it w'"
    if run: "write_loop e byte_array p start duration iterations iteration w = Some y" for y
  proof (induction rule: write_loop.raw_induct [OF _ run])
    case (1 wl e byte_array p start duration iterations iteration w y)
    obtain t w1 where tt: "time_time e w = (t, w1)"
      by (cases "time_time e w")
    note f1 = time_time_frame [OF tt]
    show ?case
    proof (cases "t - start < duration \<or> iteration < iterations")
      case False
      with 1(2) tt have "y = (Inr iteration, w1)" by simp
      with False f1 show ?thesis
        by (simp add: loop_exit_def)
    next
      case True
      obtain r2 w2 where fw: "fwrite e p byte_array w1 = (r2, w2)"
        by (cases "fwrite e p byte_array w1")
      note f2 = fwrite_frame [OF fw]
      show ?thesis
      proof (cases r2)
        case (Inl x)
        with 1(2) tt True fw show ?thesis by auto
      next
        case (Inr u)
        with 1(2) tt True fw
        have rec: "wl e byte_array p start duration iterations (iteration + 1) w2 = Some y"
          by simp
        show ?thesis
        proof (intro allI impI)
          fix it w'
          assume y: "y = (Inr it, w')"
          with 1(1) [OF rec] have ih: "loop_exit e start duration iterations (iteration + 1) w2 it w'"
            by simp
          have c2: "clock_reads w2 = Suc (clock_reads w)"
            using f1 f2 by simp
          have l2: "length (trace w2) = Suc (length (trace w))"
            using f1 f2 by simp
          from ih have le: "iteration + 1 \<le> it"
            by (simp add: loop_exit_def)
          then have n: "nat (it - iteration) = Suc (nat (it - (iteration + 1)))"
            by simp
          have "time_at e (clock_reads w + k) - start < duration \<or> iteration + int k < iterations"
            if "k < nat (it - iteration)" for k
          proof (cases k)
            case 0
            with True f1 show ?thesis by simp
          next
            case (Suc j)
            with that n have "j < nat (it - (iteration + 1))" by simp
            with ih have "time_at e (clock_reads w2 + j) - start < duration \<or> iteration + 1 + int j < iterations"
              by (simp add: loop_exit_def)
            with Suc c2 show ?thesis by (simp add: add.commute add.left_commute)
          qed
          with ih le c2 l2 n show "loop_exit e start duration iterations iteration w it w'"
            by (simp add: loop_exit_def)
        qed
      qed
    qed
  qed
  with assms show ?thesis by blast
qed


lemma validate_kwargs_passes:
  assumes "kw_operation k = ''perf''" and "kw_log_level k = ''INFO''" and "1 \<le> kw_size k"
    and "0 \<le> kw_duration k" and "0 \<le> kw_iterations k"
    and "dirname (kw_data_filepath k) \<in> dirs w" and "dirname (kw_perf_filepath k) \<in> dirs w"
  shows "validate_kwargs e k w = (Inr (), w)"
  using assms by (simp add: validate_kwargs_def OPERATIONS_def LOG_LEVELS_def isdir_def)

lemma fopen_wb_ok:
  "fopen_wb e p w = (Inr u, w') \<Longrightarrow> files w' p = Some []"
  by (auto simp: fopen_wb_def os_call_def split: option.splits)

lemma getsize_ok:
  "getsize e p w = (Inr n, w') \<Longrightarrow> \<exists>c. files w p = Some c \<and> n = length c"
  by (auto simp: getsize_def os_call_def split: option.splits)

lemma write_byte_array_continuously_returns:
  assumes "write_byte_array_continuously e byte_array p duration iterations w = Some (Inr (bytes_written, el, it), w')"
  shows "\<exists>w5 w6. clock_reads w5 = Suc (clock_reads w) \<and> trace w5 = trace w
            \<and> write_loop e byte_array p (start_reading e w) duration iterations 0 w5 = Some (Inr it, w6)
            \<and> el = time_at e (clock_reads w6) - start_reading e w \<and> el \<noteq> 0
            \<and> trace w' = trace w6 \<and> 0 \<le> duration \<and> 0 \<le> iterations
            \<and> (files w6 = files w5 \<longrightarrow> bytes_written = 0)"
proof -
  let ?k = "default_kwargs\<lparr>kw_data_filepath := p, kw_duration := duration, kw_iterations := iterations\<rparr>"
  obtain r1 w1 where v: "validate_kwargs e ?k w = (r1, w1)"
    by (cases "validate_kwargs e ?k w")
  obtain r2 w2 where o1: "fopen_wb e p w1 = (r2, w2)"
    by (cases "fopen_wb e p w1")
  obtain r3 w3 where g1: "getsize e p w2 = (r3, w3)"
    by (cases "getsize e p w2")
  obtain r4 w4 where o2: "fopen_wb e p w3 = (r4, w4)"
    by (cases "fopen_wb e p w3")
  obtain t w5 where tt: "time_time e w4 = (t, w5)"
    by (cases "time_time e w4")
  note fr = validate_kwargs_frame [OF v] fopen_wb_frame [OF o1] getsize_frame [OF g1]
    fopen_wb_frame [OF o2] time_time_frame [OF tt]
  have t: "t = start_reading e w"
    using fr by (simp add: start_reading_def)
  from assms v o1 g1 o2 tt obtain u1 u2 n3 u4 where
    ok: "r1 = Inr u1" "r2 = Inr u2" "r3 = Inr n3" "r4 = Inr u4"
    by (auto simp: write_byte_array_continuously_def split: sum.splits)
  from validate_kwargs_ok [OF v [unfolded ok]] have nonneg: "0 \<le> duration" "0 \<le> iterations"
    by simp_all
  from fopen_wb_ok [OF o1 [unfolded ok]] getsize_ok [OF g1 [unfolded ok]] have n3: "n3 = 0"
    by simp
  from fopen_wb_ok [OF o2 [unfolded ok]] fr have f5: "files w5 p = Some []"
    by simp
  from assms v o1 g1 o2 tt ok obtain w6 where
    loop: "write_loop e byte_array p t duration iterations 0 w5 = Some (Inr it, w6)"
    by (auto simp: write_byte_array_continuously_def Let_def
        split: sum.splits option.splits prod.splits if_splits)
  obtain t' w7 where tt': "time_time e w6 = (t', w7)"
    by (cases "time_time e w6")
  obtain r8 w8 where g2: "getsize e p w7 = (r8, w8)"
    by (cases "getsize e p w7")
  note fr' = time_time_frame [OF tt'] getsize_frame [OF g2]
  from assms v o1 g1 o2 tt ok loop tt' g2 obtain n8 where
    res: "el = t' - t" "el \<noteq> 0" "w' = w8" "r8 = Inr n8" "bytes_written = int n8 - int n3"
    by (auto simp: write_byte_array_continuously_def Let_def split: sum.splits if_splits)
  have "bytes_written = 0" if "files w6 = files w5"
  proof -
    from that f5 fr' have "files w7 p = Some []" by simp
    with getsize_ok [OF g2 [unfolded res(4)]] have "n8 = 0" by simp
    with res(5) n3 show ?thesis by simp
  qed
  with fr fr' t loop nonneg res show ?thesis
    by auto
qed

lemmas run_defs = fopen_wb_def fopen_ab_def getsize_def fwrite_def
  disk_usage_free_def os_call_def time_time_def content_def

lemma validate_default_fresh:
  "0 \<le> d \<Longrightarrow> 0 \<le> n \<Longrightarrow>
   validate_kwargs e (default_kwargs\<lparr>kw_data_filepath := DATA_FILEPATH, kw_duration := d, kw_iterations := n\<rparr>) (fresh_world m) = (Inr (), fresh_world m)"
  by (rule validate_kwargs_passes)
    (simp_all add: default_kwargs_def OPERATIONS_def SIZE_def dirname_DATA_FILEPATH dirname_PERF_FILEPATH fresh_world_def)

lemma write_byte_array_continuously_result:
  assumes run: "write_byte_array_continuously e byte_array p duration iterations w =
                  Some (Inr (bytes_written, el, it), w')"
  shows "iterations \<le> it
         \<and> duration \<le> test_reading e w (nat it) - start_reading e w
         \<and> (\<forall>k < nat it. test_reading e w k - start_reading e w < duration \<or> int k < iterations)
         \<and> 0 \<le> it \<and> length (trace w') = length (trace w) + nat it
         \<and> el = end_reading e w (nat it) - start_reading e w
         \<and> 0 \<le> duration \<and> el \<noteq> 0
         \<and> (clock_never_set_back e \<longrightarrow> duration \<le> el)
         \<and> (it = 0 \<longrightarrow> bytes_written = 0)"
proof -
  from write_byte_array_continuously_returns [OF run] obtain w5 w6 where
    w5: "clock_reads w5 = Suc (clock_reads w)" "trace w5 = trace w"
    and loop: "write_loop e byte_array p (start_reading e w) duration iterations 0 w5 = Some (Inr it, w6)"
    and el: "el = time_at e (clock_reads w6) - start_reading e w"
    and tr: "trace w' = trace w6"
    and more: "0 \<le> duration" "el \<noteq> 0"
    and bw: "files w6 = files w5 \<longrightarrow> bytes_written = 0"
    by blast
  from write_loop_exit [OF loop] have ex: "loop_exit e (start_reading e w) duration iterations 0 w5 it w6" .
  then have it: "0 \<le> it" and c6: "clock_reads w6 = clock_reads w + 2 + nat it"
    using w5 by (simp_all add: loop_exit_def)
  from ex w5 have last: "duration \<le> test_reading e w (nat it) - start_reading e w"
    by (simp add: loop_exit_def test_reading_def)
  have "duration \<le> el" if "clock_never_set_back e"
  proof -
    from that have "time_at e (clock_reads w + 1 + nat it) \<le> time_at e (clock_reads w + 2 + nat it)"
      by (simp add: clock_never_set_back_def)
    with last el c6 show ?thesis
      by (simp add: test_reading_def)
  qed
  moreover from ex have "iterations \<le> it"
    by (simp add: loop_exit_def)
  moreover from ex w5 have "\<forall>k < nat it. test_reading e w k - start_reading e w < duration \<or> int k < iterations"
    by (simp add: loop_exit_def test_reading_def)
  moreover from ex w5 tr have "length (trace w') = length (trace w) + nat it"
    by (simp add: loop_exit_def)
  moreover from el c6 have "el = end_reading e w (nat it) - start_reading e w"
    by (simp add: end_reading_def)
  moreover from ex bw have "it = 0 \<longrightarrow> bytes_written = 0"
    by (simp add: loop_exit_def)
  ultimately show ?thesis
    using last it more by simp
qed






text \<open>
  Claim C3 on a clock that returns the same reading for \<^verbatim>\<open>start\<close> and \<^verbatim>\<open>end\<close>: with
  \<open>duration = 0\<close> and \<open>iterations = 0\<close> the loop makes no write, but the call does
  not return a result: \<open>elapsed\<close> is zero and the throughput computed for the log
  raises \<open>ZeroDivisionError\<close>.
\<close>

theorem write_continuously_zero_bounds_stalled_clock:
  "\<exists>w'. write_byte_array_continuously stalled_env [1, 2, 3] DATA_FILEPATH 0 0 (fresh_world 100) =
          Some (Inl ZeroDivisionError, w') \<and> trace w' = []"
  unfolding write_byte_array_continuously_def
  by (simp add: validate_default_fresh)
    (simp add: run_defs write_loop.simps fresh_world_def stalled_env_def)

text \<open>
  Whenever the call with both bounds zero does return, on a clock that is never
  set back, it returns no iterations and no bytes, after no write.
\<close>

lemma write_continuously_zero_bounds_returns:
  assumes clock: "clock_never_set_back e"
    and run: "write_byte_array_continuously e byte_array p 0 0 w = Some (Inr (bytes_written, el, it), w')"
  shows "it = 0 \<and> bytes_written = 0 \<and> length (trace w') = length (trace w)"
proof -
  note r = write_byte_array_continuously_result [OF run]
  have "nat it = 0"
  proof (rule ccontr)
    assume "nat it \<noteq> 0"
    with r have "test_reading e w 0 - start_reading e w < 0"
      by auto
    moreover from clock have "start_reading e w \<le> test_reading e w 0"
      by (simp add: clock_never_set_back_def start_reading_def test_reading_def)
    ultimately show False by simp
  qed
  with r show ?thesis by simp
qed

text \<open>For example, on a clock that advances:\<close>

lemma write_continuously_zero_bounds_calm_clock:
  "\<exists>w'. write_byte_array_continuously calm_env [1, 2, 3] DATA_FILEPATH 0 0 (fresh_world 100) =
          Some (Inr (0, 10, 0), w') \<and> trace w' = []"
  unfolding write_byte_array_continuously_def
  by (simp add: validate_default_fresh)
    (simp add: run_defs write_loop.simps fresh_world_def calm_env_def)

section \<open>Properties of the filler\<close>

lemma disk_usage_free_raises:
  "disk_usage_free e w = (Inl x, w') \<Longrightarrow> raised_by_env e x"
  by (auto simp: disk_usage_free_def os_call_def raised_by_env_def split: option.splits)

lemma fwrite_raises:
  "fwrite e p d w = (Inl x, w') \<Longrightarrow> raised_by_env e x"
  by (auto simp: fwrite_def os_call_def raised_by_env_def split: option.splits if_splits)

lemma fopen_ab_raises:
  "fopen_ab e p w = (Inl x, w') \<Longrightarrow> raised_by_env e x"
  by (auto simp: fopen_ab_def os_call_def raised_by_env_def split: option.splits)

lemma coarse_exit_step:
  assumes d: "disk_usage_free e w = (Inr f, w1)" and gt: "length byte_array < f"
    and fw: "fwrite e p byte_array w1 = (Inr u, w2)"
    and ce: "coarse_exit e byte_array p w2 r w'"
  shows "coarse_exit e byte_array p w r w'"
proof -
  note f1 = disk_usage_free_frame [OF d] disk_usage_free_value [OF d]
  note f2 = fwrite_frame [OF fw]
  from ce obtain fs where fs: "trace w' = trace w2 @ map (\<lambda>f. Write p f byte_array) fs"
    "list_all (\<lambda>f. length byte_array < f) fs"
    by (auto simp: coarse_exit_def)
  have "trace w' = trace w @ map (\<lambda>f. Write p f byte_array) (free w # fs)"
    using fs f1 f2 by simp
  moreover have "list_all (\<lambda>f. length byte_array < f) (free w # fs)"
    using fs f1 gt by simp
  ultimately have "\<exists>fs. trace w' = trace w @ map (\<lambda>f. Write p f byte_array) fs
            \<and> list_all (\<lambda>f. length byte_array < f) fs"
    by blast
  with ce f1 f2 show ?thesis
    by (simp add: coarse_exit_def)
qed

lemma coarse_loop_exit:
  assumes "coarse_loop e byte_array p w = Some (r, w')"
  shows "coarse_exit e byte_array p w r w'"
proof -
  have "\<forall>r w'. y = (r, w') \<longrightarrow> coarse_exit e byte_array p w r w'"
    if run: "coarse_loop e byte_array p w = Some y" for y
  proof (induction rule: coarse_loop.raw_induct [OF _ run])
    case (1 cl e byte_array p w y)
    obtain r1 w1 where d: "disk_usage_free e w = (r1, w1)"
      by (cases "disk_usage_free e w")
    note f1 = disk_usage_free_frame [OF d]
    have nil: "trace w1 = trace w @ map (\<lambda>f. Write p f byte_array) [] \<and> list_all (\<lambda>f. length byte_array < f) []"
      using f1 by simp
    show ?case
    proof (cases r1)
      case (Inl x)
      with 1(2) d have y: "y = (Inl x, w1)" by auto
      from d Inl have "raised_by_env e x" by (simp add: disk_usage_free_raises)
      with y f1 nil show ?thesis
        unfolding coarse_exit_def by blast
    next
      case (Inr f)
      note f = disk_usage_free_value [OF d [unfolded Inr]]
      show ?thesis
      proof (cases "length byte_array < f")
        case False
        with 1(2) d Inr have y: "y = (Inr (), w1)" by auto
        from False f f1 have "free w1 \<le> length byte_array" by simp
        with y f1 nil show ?thesis
          unfolding coarse_exit_def by blast
      next
        case True
        obtain r2 w2 where fw: "fwrite e p byte_array w1 = (r2, w2)"
          by (cases "fwrite e p byte_array w1")
        note f2 = fwrite_frame [OF fw]
        show ?thesis
        proof (cases r2)
          case (Inl x)
          with 1(2) d \<open>r1 = Inr f\<close> True fw have y: "y = (Inl x, w2)" by auto
          from fw Inl have rb: "raised_by_env e x" by (simp add: fwrite_raises)
          have "trace w2 = trace w @ map (\<lambda>f. Write p f byte_array) [free w]
                \<and> list_all (\<lambda>f. length byte_array < f) [free w]"
            using f1 f2 f True by simp
          with y f1 f2 rb show ?thesis
            unfolding coarse_exit_def by blast
        next
          case (Inr u)
          with 1(2) d \<open>r1 = Inr f\<close> True fw have rec: "cl e byte_array p w2 = Some y" by auto
          show ?thesis
          proof (intro allI impI)
            fix r w'
            assume "y = (r, w')"
            with 1(1) [OF rec] have "coarse_exit e byte_array p w2 r w'" by simp
            with d \<open>r1 = Inr f\<close> True fw Inr show "coarse_exit e byte_array p w r w'"
              by (auto intro: coarse_exit_step)
          qed
        qed
      qed
    qed
  qed
  with assms show ?thesis by blast
qed



lemma fine_loop_exit:
  "fine_loop e byte_array p idxs w = (r, w') \<Longrightarrow> fine_exit e byte_array p idxs w r w'"
proof (induction idxs arbitrary: w)
  case Nil
  have "trace w = trace w @ map2 (slice_write p byte_array) [] [] \<and> list_all (\<lambda>f. one_mb_bytes < f) []"
    by simp
  with Nil show ?case
    unfolding fine_exit_def by auto
next
  case (Cons i rest)
  obtain r1 w1 where d: "disk_usage_free e w = (r1, w1)"
    by (cases "disk_usage_free e w")
  note f1 = disk_usage_free_frame [OF d]
  have nil: "length ([]::nat list) \<le> length (i # rest)
      \<and> trace w1 = trace w @ map2 (slice_write p byte_array) (i # rest) []
      \<and> list_all (\<lambda>f. one_mb_bytes < f) []"
    using f1 by simp
  show ?case
  proof (cases r1)
    case (Inl x)
    with Cons.prems d have y: "r = Inl x" "w' = w1" by auto
    from d Inl have "raised_by_env e x" by (simp add: disk_usage_free_raises)
    with y f1 nil show ?thesis
      unfolding fine_exit_def by blast
  next
    case (Inr f)
    note f = disk_usage_free_value [OF d [unfolded Inr]]
    show ?thesis
    proof (cases "one_mb_bytes < f")
      case False
      with Cons.prems d Inr have y: "r = Inr ()" "w' = w1" by auto
      with f1 nil show ?thesis
        unfolding fine_exit_def by blast
    next
      case True
      let ?d = "slice (i * one_mb_bytes) ((i + 1) * one_mb_bytes) byte_array"
      obtain r2 w2 where fw: "fwrite e p ?d w1 = (r2, w2)"
        by (cases "fwrite e p ?d w1")
      note f2 = fwrite_frame [OF fw]
      have one: "length [free w] \<le> length (i # rest)
          \<and> trace w2 = trace w @ map2 (slice_write p byte_array) (i # rest) [free w]
          \<and> list_all (\<lambda>f. one_mb_bytes < f) [free w]"
        using f1 f2 f True by (simp add: slice_write_def)
      show ?thesis
      proof (cases r2)
        case (Inl x)
        with Cons.prems d \<open>r1 = Inr f\<close> True fw have y: "r = Inl x" "w' = w2" by auto
        from fw Inl have rb: "raised_by_env e x" by (simp add: fwrite_raises)
        with y f1 f2 one show ?thesis
          unfolding fine_exit_def by blast
      next
        case (Inr u)
        with Cons.prems d \<open>r1 = Inr f\<close> True fw have "fine_loop e byte_array p rest w2 = (r, w')"
          by auto
        from Cons.IH [OF this] obtain fs where
          fs: "length fs \<le> length rest" "trace w' = trace w2 @ map2 (slice_write p byte_array) rest fs"
            "list_all (\<lambda>f. one_mb_bytes < f) fs"
          and rest: "event_flag w' = event_flag w2" "\<forall>x. r = Inl x \<longrightarrow> raised_by_env e x"
          unfolding fine_exit_def by blast
        have "length (free w # fs) \<le> length (i # rest)
            \<and> trace w' = trace w @ map2 (slice_write p byte_array) (i # rest) (free w # fs)
            \<and> list_all (\<lambda>f. one_mb_bytes < f) (free w # fs)"
          using fs one by simp
        with rest f1 f2 show ?thesis
          unfolding fine_exit_def by blast
      qed
    qed
  qed
qed

lemma map2_upt_nth:
  assumes "length fs \<le> m"
  shows "map2 g [0..<m] fs = map (\<lambda>i. g i (fs ! i)) [0..<length fs]"
  using assms by (intro nth_equalityI) simp_all

lemma coarse_write_exit:
  assumes "coarse_write e byte_array p w = Some (r, w')"
  shows "coarse_exit e byte_array p w r w'"
proof -
  obtain r1 w1 where o: "fopen_ab e p w = (r1, w1)"
    by (cases "fopen_ab e p w")
  note f1 = fopen_ab_frame [OF o]
  show ?thesis
  proof (cases r1)
    case (Inl x)
    with assms o have y: "r = Inl x" "w' = w1"
      by (auto simp: coarse_write_def)
    have "trace w1 = trace w @ map (\<lambda>f. Write p f byte_array) [] \<and> list_all (\<lambda>f. length byte_array < f) []"
      using f1 by simp
    moreover from o Inl have "raised_by_env e x" by (simp add: fopen_ab_raises)
    ultimately show ?thesis
      using y f1 unfolding coarse_exit_def by blast
  next
    case (Inr u)
    with assms o have "coarse_loop e byte_array p w1 = Some (r, w')"
      by (auto simp: coarse_write_def)
    from coarse_loop_exit [OF this] f1 show ?thesis
      by (simp add: coarse_exit_def)
  qed
qed

lemma fine_write_exit:
  assumes "fine_write e byte_array p w = (r, w')"
  shows "fine_exit e byte_array p [0..<length byte_array div one_mb_bytes] w r w'"
proof -
  obtain r1 w1 where o: "fopen_ab e p w = (r1, w1)"
    by (cases "fopen_ab e p w")
  note f1 = fopen_ab_frame [OF o]
  show ?thesis
  proof (cases r1)
    case (Inl x)
    with assms o have y: "r = Inl x" "w' = w1"
      by (auto simp: fine_write_def)
    have "length ([]::nat list) \<le> length [0..<length byte_array div one_mb_bytes]
        \<and> trace w1 = trace w @ map2 (slice_write p byte_array) [0..<length byte_array div one_mb_bytes] []
        \<and> list_all (\<lambda>f. one_mb_bytes < f) []"
      using f1 by simp
    moreover from o Inl have "raised_by_env e x" by (simp add: fopen_ab_raises)
    ultimately show ?thesis
      using y f1 unfolding fine_exit_def by blast
  next
    case (Inr u)
    with assms o have "fine_loop e byte_array p [0..<length byte_array div one_mb_bytes] w1 = (r, w')"
      by (auto simp: fine_write_def)
    from fine_loop_exit [OF this] f1 show ?thesis
      by (simp add: fine_exit_def)
  qed
qed

lemma fine_write_slices:
  assumes "fine_write e byte_array p w = (r, w')"
  shows "\<exists>fs. length fs \<le> length byte_array div one_mb_bytes
           \<and> trace w' = trace w @ map (\<lambda>i. slice_write p byte_array i (fs ! i)) [0..<length fs]
           \<and> list_all (\<lambda>f. one_mb_bytes < f) fs"
proof -
  from fine_write_exit [OF assms] obtain fs where
    fs: "length fs \<le> length byte_array div one_mb_bytes"
      "trace w' = trace w @ map2 (slice_write p byte_array) [0..<length byte_array div one_mb_bytes] fs"
      "list_all (\<lambda>f. one_mb_bytes < f) fs"
    unfolding fine_exit_def by auto
  from fs(1) have "map2 (slice_write p byte_array) [0..<length byte_array div one_mb_bytes] fs
      = map (\<lambda>i. slice_write p byte_array i (fs ! i)) [0..<length fs]"
    by (rule map2_upt_nth)
  with fs show ?thesis by auto
qed

lemma fine_write_short:
  assumes "fine_write e byte_array p w = (r, w')" and "length byte_array < one_mb_bytes"
  shows "trace w' = trace w \<and> free w' = free w"
proof -
  obtain r1 w1 where o: "fopen_ab e p w = (r1, w1)"
    by (cases "fopen_ab e p w")
  note f1 = fopen_ab_frame [OF o]
  from assms o have "w' = w1"
    by (cases r1) (auto simp: fine_write_def)
  with f1 show ?thesis by simp
qed

lemma fill_phases_exit:
  assumes "fill_phases e byte_array p w = Some (r, w')"
  shows "phases_exit e byte_array p w r w'"
proof -
  from assms obtain r1 w1 where c: "coarse_write e byte_array p w = Some (r1, w1)"
    by (auto simp: fill_phases_def split: option.splits)
  from coarse_write_exit [OF c] obtain cs where
    cs: "trace w1 = trace w @ map (\<lambda>f. Write p f byte_array) cs" "list_all (\<lambda>f. length byte_array < f) cs"
    and c1: "event_flag w1 = event_flag w" "\<forall>x. r1 = Inl x \<longrightarrow> raised_by_env e x"
    unfolding coarse_exit_def by blast
  show ?thesis
  proof (cases r1)
    case (Inl x)
    with assms c have y: "r = Inl x" "w' = w1"
      by (auto simp: fill_phases_def)
    have "length ([]::nat list) \<le> length byte_array div one_mb_bytes
        \<and> trace w1 = trace w @ map (\<lambda>f. Write p f byte_array) cs
              @ map (\<lambda>i. slice_write p byte_array i ([] ! i)) [0..<length ([]::nat list)]
        \<and> list_all (\<lambda>f. length byte_array < f) cs \<and> list_all (\<lambda>f. one_mb_bytes < f) []"
      using cs by simp
    with y c1 Inl show ?thesis
      unfolding phases_exit_def by blast
  next
    case (Inr u)
    with assms c have f: "fine_write e byte_array p w1 = (r, w')"
      by (auto simp: fill_phases_def)
    from fine_write_slices [OF f] obtain fs where
      fs: "length fs \<le> length byte_array div one_mb_bytes"
        "trace w' = trace w1 @ map (\<lambda>i. slice_write p byte_array i (fs ! i)) [0..<length fs]"
        "list_all (\<lambda>f. one_mb_bytes < f) fs"
      by blast
    from fine_write_exit [OF f] have f2: "event_flag w' = event_flag w1" "\<forall>x. r = Inl x \<longrightarrow> raised_by_env e x"
      unfolding fine_exit_def by auto
    have "length fs \<le> length byte_array div one_mb_bytes
        \<and> trace w' = trace w @ map (\<lambda>f. Write p f byte_array) cs
              @ map (\<lambda>i. slice_write p byte_array i (fs ! i)) [0..<length fs]
        \<and> list_all (\<lambda>f. length byte_array < f) cs \<and> list_all (\<lambda>f. one_mb_bytes < f) fs"
      using cs fs by simp
    with c1 f2 show ?thesis
      unfolding phases_exit_def by blast
  qed
qed













text \<open>
  Claim C6, as far as the code goes. In every run of the two phases, the trace
  grows by writes of the whole buffer, each attempted with more free space than
  the buffer is long, followed by writes of one-mebibyte slices, each attempted
  with more than one mebibyte free. When the first phase completes normally the
  free space is at most the length of the buffer (the loop runs while
  \<open>free > len(byte_array)\<close>, so it may stop at equality).
\<close>

theorem fill_writes_only_with_room:
  "(fill_phases e byte_array p w = Some (r, w') \<longrightarrow>
      (\<exists>cs fs. trace w' = trace w @ map (\<lambda>f. Write p f byte_array) cs
                   @ map (\<lambda>i. slice_write p byte_array i (fs ! i)) [0..<length fs]
          \<and> list_all (\<lambda>f. length byte_array < f) cs
          \<and> list_all (\<lambda>f. one_mb_bytes < f) fs))
   \<and> (coarse_write e byte_array p w = Some (Inr (), w1) \<longrightarrow> free w1 \<le> length byte_array)"
proof (intro conjI impI)
  assume "fill_phases e byte_array p w = Some (r, w')"
  from fill_phases_exit [OF this]
  show "\<exists>cs fs. trace w' = trace w @ map (\<lambda>f. Write p f byte_array) cs
                   @ map (\<lambda>i. slice_write p byte_array i (fs ! i)) [0..<length fs]
          \<and> list_all (\<lambda>f. length byte_array < f) cs
          \<and> list_all (\<lambda>f. one_mb_bytes < f) fs"
    unfolding phases_exit_def by blast
next
  assume "coarse_write e byte_array p w = Some (Inr (), w1)"
  from coarse_write_exit [OF this] show "free w1 \<le> length byte_array"
    by (simp add: coarse_exit_def)
qed

theorem fill_writes_only_with_room_witness:
  "\<exists>w' w1. fill_phases calm_env [1, 2, 3, 4] DATA_FILEPATH (fresh_world 10) = Some (Inr (), w')
      \<and> trace w' = [Write DATA_FILEPATH 10 [1, 2, 3, 4], Write DATA_FILEPATH 6 [1, 2, 3, 4]]
      \<and> coarse_write calm_env [1, 2, 3, 4] DATA_FILEPATH (fresh_world 10) = Some (Inr (), w1)
      \<and> free w1 \<le> length [1, 2, 3, 4::int]"
proof -
  obtain w' where run: "fill_phases calm_env [1, 2, 3, 4] DATA_FILEPATH (fresh_world 10) = Some (Inr (), w')"
    and tr: "trace w' = [Write DATA_FILEPATH 10 [1, 2, 3, 4], Write DATA_FILEPATH 6 [1, 2, 3, 4]]"
    by (simp add: fill_phases_def coarse_write_def fine_write_def coarse_loop.simps
        run_defs fresh_world_def calm_env_def one_mb_bytes_def)
  obtain w1 where c: "coarse_write calm_env [1, 2, 3, 4] DATA_FILEPATH (fresh_world 10) = Some (Inr (), w1)"
    by (simp add: coarse_write_def coarse_loop.simps run_defs fresh_world_def calm_env_def)
  from fill_writes_only_with_room
    [where e = calm_env and byte_array = "[1, 2, 3, 4]" and p = DATA_FILEPATH
       and w = "fresh_world 10" and ?w1.0 = w1] c
  have "free w1 \<le> length [1, 2, 3, 4::int]" by blast
  with run tr c show ?thesis by blast
qed

text \<open>
  Claim C6 as it is stated fails at the boundary: with a buffer of three bytes and
  exactly three bytes free, the first phase completes normally without a write
  and leaves three bytes free, which is not less than the length of the buffer.
\<close>

theorem coarse_phase_boundary_counterexample:
  "map_option (\<lambda>(r, w'). (r, free w')) (coarse_write calm_env [1, 2, 3] DATA_FILEPATH (fresh_world 3))
     = Some (Inr (), 3)
   \<and> \<not> (3::nat) < length [1, 2, 3::int]"
  by (simp add: coarse_write_def coarse_loop.simps run_defs fresh_world_def calm_env_def)




text \<open>
  Claim C10. The second phase writes, for some \<open>n\<close> of at most
  \<open>len(byte_array) // one_mb_bytes\<close>, the slices
  \<^verbatim>\<open>byte_array[i * one_mb_bytes:(i + 1) * one_mb_bytes]\<close> for \<open>i = 0, ..., n - 1\<close>, in this
  order, and nothing else. For a buffer shorter than one mebibyte it writes
  nothing and leaves the free space as it is, so that a run of both phases that
  completes normally ends with up to \<open>len(byte_array)\<close> bytes free.
\<close>

theorem fine_phase_slices:
  "(fine_write e byte_array p w = (r, w') \<longrightarrow>
      (\<exists>fs. length fs \<le> length byte_array div one_mb_bytes
          \<and> trace w' = trace w @ map (\<lambda>i. Write p (fs ! i)
                 (slice (i * one_mb_bytes) ((i + 1) * one_mb_bytes) byte_array)) [0..<length fs])
      \<and> (length byte_array < one_mb_bytes \<longrightarrow> trace w' = trace w \<and> free w' = free w))
   \<and> (length byte_array < one_mb_bytes \<and> fill_phases e byte_array p w = Some (Inr (), w2) \<longrightarrow>
        free w2 \<le> length byte_array)"
proof (intro conjI impI)
  assume f: "fine_write e byte_array p w = (r, w')"
  from fine_write_slices [OF f]
  show "\<exists>fs. length fs \<le> length byte_array div one_mb_bytes
          \<and> trace w' = trace w @ map (\<lambda>i. Write p (fs ! i)
                 (slice (i * one_mb_bytes) ((i + 1) * one_mb_bytes) byte_array)) [0..<length fs]"
    unfolding slice_write_def by blast
  assume "length byte_array < one_mb_bytes"
  with f show "trace w' = trace w" and "free w' = free w"
    by (simp_all add: fine_write_short)
next
  assume a: "length byte_array < one_mb_bytes \<and> fill_phases e byte_array p w = Some (Inr (), w2)"
  then obtain r1 w1 where c: "coarse_write e byte_array p w = Some (r1, w1)"
    by (auto simp: fill_phases_def split: option.splits)
  with a have r1: "r1 = Inr ()" and f: "fine_write e byte_array p w1 = (Inr (), w2)"
    by (cases r1; simp add: fill_phases_def)+
  from coarse_write_exit [OF c] r1 have "free w1 \<le> length byte_array"
    by (simp add: coarse_exit_def)
  with fine_write_short [OF f] a show "free w2 \<le> length byte_array"
    by simp
qed

theorem fine_phase_slices_witness:
  "(\<exists>w' fs. fine_write calm_env (replicate 2097152 7) DATA_FILEPATH (fresh_world 2500000) = (Inr (), w')
       \<and> trace w' = [Write DATA_FILEPATH 2500000 (replicate 1048576 7),
                      Write DATA_FILEPATH 1451424 (replicate 1048576 7)]
       \<and> length fs \<le> 2
       \<and> trace w' = map (\<lambda>i. Write DATA_FILEPATH (fs ! i)
              (slice (i * one_mb_bytes) ((i + 1) * one_mb_bytes) (replicate 2097152 7))) [0..<length fs])
   \<and> (\<exists>w3. fine_write calm_env [1, 2, 3] DATA_FILEPATH (fresh_world 3) = (Inr (), w3)
         \<and> trace w3 = [] \<and> free w3 = 3)
   \<and> (\<exists>w2. fill_phases calm_env [1, 2, 3] DATA_FILEPATH (fresh_world 3) = Some (Inr (), w2)
         \<and> free w2 = 3 \<and> free w2 \<le> length [1, 2, 3::int])"
proof -
  obtain w' where run:
    "fine_write calm_env (replicate 2097152 7) DATA_FILEPATH (fresh_world 2500000) = (Inr (), w')"
    and tr: "trace w' = [Write DATA_FILEPATH 2500000 (replicate 1048576 7),
                          Write DATA_FILEPATH 1451424 (replicate 1048576 7)]"
    by (simp add: fine_write_def run_defs fresh_world_def calm_env_def one_mb_bytes_def slice_def upt_rec)
  from fine_phase_slices
    [where e = calm_env and byte_array = "replicate 2097152 7" and p = DATA_FILEPATH
       and w = "fresh_world 2500000" and r = "Inr ()" and w' = w'] run
  obtain fs where fs: "length fs \<le> 2097152 div one_mb_bytes"
    "trace w' = trace (fresh_world 2500000) @ map (\<lambda>i. Write DATA_FILEPATH (fs ! i)
        (slice (i * one_mb_bytes) ((i + 1) * one_mb_bytes) (replicate 2097152 7))) [0..<length fs]"
    by auto
  then have fs': "length fs \<le> 2"
    "trace w' = map (\<lambda>i. Write DATA_FILEPATH (fs ! i)
        (slice (i * one_mb_bytes) ((i + 1) * one_mb_bytes) (replicate 2097152 7))) [0..<length fs]"
    by (simp_all add: one_mb_bytes_def fresh_world_def)
  obtain w3 where small: "fine_write calm_env [1, 2, 3] DATA_FILEPATH (fresh_world 3) = (Inr (), w3)"
    by (simp add: fine_write_def run_defs fresh_world_def calm_env_def one_mb_bytes_def)
  from fine_phase_slices
    [where e = calm_env and byte_array = "[1, 2, 3]" and p = DATA_FILEPATH
       and w = "fresh_world 3" and r = "Inr ()" and w' = w3] small
  have small': "trace w3 = [] \<and> free w3 = 3"
    by (simp add: one_mb_bytes_def fresh_world_def)
  obtain w2 where short: "fill_phases calm_env [1, 2, 3] DATA_FILEPATH (fresh_world 3) = Some (Inr (), w2)"
    and fr: "free w2 = 3"
    by (simp add: fill_phases_def coarse_write_def fine_write_def coarse_loop.simps
        run_defs fresh_world_def calm_env_def one_mb_bytes_def)
  from fine_phase_slices
    [where e = calm_env and byte_array = "[1, 2, 3]" and p = DATA_FILEPATH
       and w = "fresh_world 3" and ?w2.0 = w2] short
  have "free w2 \<le> length [1, 2, 3::int]"
    by (simp add: one_mb_bytes_def)
  with run tr fs' small small' short fr show ?thesis by blast
qed

section \<open>Properties of the throughput sweep\<close>
















end
